theory Spec2Isabelle
  imports Main "HOL-Library.Multiset"
begin

section \<open>Task objects and the task store\<close>

text \<open>
  A \<open>Task\<close> of \<^verbatim>\<open>ToDoList.py\<close> is a mutable object with the attributes \<open>name\<close>,
  \<open>priority\<close>, \<open>status\<close> and \<open>index\<close>. The name is whatever the caller passes:
  \<open>loadTasks\<close> passes the result of \<open>findtext\<close>, which is Python's \<open>None\<close> when
  the record has no \<open>name\<close> child, so the attribute is an optional string.
  Priority, status and index are Python integers (unbounded).
\<close>

record Task =
  name :: "string option"
  priority :: int
  status :: int
  index :: int

text \<open>\<open>Task.__init__(name, priority, status)\<close>: the index always starts at 0.\<close>

definition Task_init :: "string option \<Rightarrow> int \<Rightarrow> int \<Rightarrow> Task" where
  "Task_init n p st = \<lparr>name = n, priority = p, status = st, index = 0\<rparr>"

text \<open>\<open>Task()\<close> with the default arguments of the constructor.\<close>

definition Task_default :: Task where
  "Task_default = Task_init (Some ''new task'') 1 0"

text \<open>
  Tasks are compared and mutated by reference. The objects live in a store of objects
  (\<open>heap\<close>); a reference is a position in it, and a new object is allocated at the end.
  \<open>tasks\<close> is the list \<open>self.tasks\<close> of references, in storage order.
\<close>

type_synonym ref = nat

record TaskStore =
  heap :: "Task list"
  tasks :: "ref list"

text \<open>The assignment \<open>task.index = i\<close> on the object behind a reference.\<close>

definition setIndex :: "ref \<Rightarrow> int \<Rightarrow> Task list \<Rightarrow> Task list" where
  "setIndex task i h = h[task := (h ! task)\<lparr>index := i\<rparr>]"

text \<open>The loop \<open>for i, task in enumerate(ts): task.index = i\<close>.\<close>

definition assignIndices :: "ref list \<Rightarrow> Task list \<Rightarrow> Task list" where
  "assignIndices ts h = fold (\<lambda>(i, task). setIndex task (int i)) (enumerate 0 ts) h"

definition resetTasks :: "TaskStore \<Rightarrow> TaskStore" where
  "resetTasks s = s\<lparr>heap := assignIndices (tasks s) (heap s)\<rparr>"

definition filterFinished :: "bool \<Rightarrow> TaskStore \<Rightarrow> TaskStore" where
  "filterFinished hideFinished s =
     s\<lparr>heap := fold (\<lambda>task h. if hideFinished \<and> status (h ! task) = 2
                               then setIndex task (- 1) h else h)
                      (tasks s) (heap s)\<rparr>"

text \<open>
  \<open>sorted(..., key=lambda task: task.priority)\<close> is a stable ascending sort; so is
  \<open>sort_key\<close>, and a stable sort has one result only.
\<close>

definition sortedTasks :: "bool \<Rightarrow> TaskStore \<Rightarrow> ref list" where
  "sortedTasks active s =
     (let st = sort_key (\<lambda>t. priority (heap s ! t))
                        (filter (\<lambda>t. 0 \<le> index (heap s ! t)) (tasks s))
      in if active then rev st else st)"

definition sortByPriority :: "bool \<Rightarrow> TaskStore \<Rightarrow> TaskStore" where
  "sortByPriority active s =
     s\<lparr>heap := assignIndices
                  (filter (\<lambda>t. 0 \<le> index (heap s ! t)) (sortedTasks active s))
                  (heap s)\<rparr>"

text \<open>\<open>MainWindow.applyFilterAndSorting\<close>, with the two buttons' states as arguments.\<close>

definition applyFilterAndSorting :: "bool \<Rightarrow> bool \<Rightarrow> TaskStore \<Rightarrow> TaskStore" where
  "applyFilterAndSorting hide descending s =
     sortByPriority descending (filterFinished hide (resetTasks s))"

text \<open>\<open>addTask\<close> allocates a new default task, puts it in front, and returns it.\<close>

definition addTask :: "TaskStore \<Rightarrow> ref \<times> TaskStore" where
  "addTask s =
     (let newTask = length (heap s)
      in (newTask, \<lparr>heap = heap s @ [Task_default], tasks = newTask # tasks s\<rparr>))"

text \<open>
  \<open>deleteTask\<close>: the task to delete comes from the widget that sent the signal; here it
  is the argument. \<open>Task\<close> defines no comparison, so \<open>!=\<close> compares references.
\<close>

definition deleteTask :: "ref \<Rightarrow> TaskStore \<Rightarrow> TaskStore" where
  "deleteTask taskToDelete s =
     resetTasks \<lparr>heap = setIndex taskToDelete (- 2) (heap s),
                 tasks = filter (\<lambda>task. taskToDelete \<noteq> task) (tasks s)\<rparr>"

text \<open>
  Every reference of the collection points to an object. A store is well formed when,
  moreover, no object is listed twice. Every store the program builds is well formed
  (see below).
\<close>

definition validRefs :: "TaskStore \<Rightarrow> bool" where
  "validRefs s \<longleftrightarrow> list_all (\<lambda>t. t < length (heap s)) (tasks s)"

definition wf :: "TaskStore \<Rightarrow> bool" where
  "wf s \<longleftrightarrow> distinct (tasks s) \<and> validRefs s"

text \<open>
  Two states of the store that differ in index attributes at most: the same collection,
  and the same name, priority and status for every object.
\<close>

definition onlyIndexChanged :: "TaskStore \<Rightarrow> TaskStore \<Rightarrow> bool" where
  "onlyIndexChanged s s' \<longleftrightarrow>
     tasks s' = tasks s \<and>
     map name (heap s') = map name (heap s) \<and>
     map priority (heap s') = map priority (heap s) \<and>
     map status (heap s') = map status (heap s)"

text \<open>
  Three tasks: A (priority 1, Finished), B (priority 3, Waiting) and C (priority 2,
  Finished), stored in this order.
\<close>

definition exampleStore :: TaskStore where
  "exampleStore =
     \<lparr>heap = [\<lparr>name = Some ''A'', priority = 1, status = 2, index = 0\<rparr>,
              \<lparr>name = Some ''B'', priority = 3, status = 0, index = 0\<rparr>,
              \<lparr>name = Some ''C'', priority = 2, status = 2, index = 0\<rparr>],
      tasks = [0, 1, 2]\<rparr>"

text \<open>
  The tasks that take part in the ranking: those of the collection whose index is not
  negative (the comprehension in \<open>sortByPriority\<close>).
\<close>
definition activeTasks :: "TaskStore \<Rightarrow> ref list" where
  "activeTasks s = filter (\<lambda>t. 0 \<le> index (heap s ! t)) (tasks s)"

text \<open>
  The visible tasks of a recompute pass, in storage order (the tasks the filter does not
  hide), and the display order: the visible tasks by ascending priority, reversed when
  descending.
\<close>
definition visibleTasks :: "bool \<Rightarrow> TaskStore \<Rightarrow> ref list" where
  "visibleTasks hide s = filter (\<lambda>t. \<not> (hide \<and> status (heap s ! t) = 2)) (tasks s)"

definition displayOrder :: "bool \<Rightarrow> bool \<Rightarrow> TaskStore \<Rightarrow> ref list" where
  "displayOrder hide descending s =
     (let st = sort_key (\<lambda>t. priority (heap s ! t)) (visibleTasks hide s)
      in if descending then rev st else st)"

text \<open>Two tasks of equal priority, already numbered in storage order.\<close>

definition tieStore :: TaskStore where
  "tieStore =
     \<lparr>heap = [\<lparr>name = Some ''A'', priority = 1, status = 0, index = 0\<rparr>,
              \<lparr>name = Some ''B'', priority = 1, status = 0, index = 1\<rparr>],
      tasks = [0, 1]\<rparr>"

text \<open>Two different tasks with the same field values.\<close>

definition twinStore :: TaskStore where
  "twinStore =
     \<lparr>heap = [\<lparr>name = Some ''new task'', priority = 1, status = 0, index = 0\<rparr>,
              \<lparr>name = Some ''new task'', priority = 1, status = 0, index = 0\<rparr>],
      tasks = [0, 1]\<rparr>"


section \<open>Loading and saving\<close>

text \<open>
  The exceptions that loading can raise: the XML parser's \<open>ParseError\<close> and the
  \<open>TypeError\<close> and \<open>ValueError\<close> of \<open>int()\<close>. Nothing in the program catches
  them.
\<close>

datatype pyerror = ParseError | TypeError | ValueError

text \<open>
  An element of the XML tree as \<open>ElementTree\<close> presents it: its tag, its text
  (\<open>None\<close> when it has none) and its children in document order. The program reads
  and writes nothing else of an element.
\<close>

datatype Element = Element (tag: string) (elemText: "string option") (children: "Element list")

text \<open>
  What the settings path holds when the store is built: no file
  (\<open>os.path.isfile\<close> is false), a file that \<open>ET.parse\<close> rejects, or a document
  with the root element that \<open>ET.parse\<close> returns.
\<close>

datatype fileState = NoFile | Unparsable | Document Element

text \<open>
  \<open>findall\<close> and \<open>findtext\<close> with a plain tag as path: the direct children with that
  tag, in document order; the text of the first of them, the empty string when it has no
  text, and \<open>None\<close> when there is no such child.
\<close>

definition findall :: "Element \<Rightarrow> string \<Rightarrow> Element list" where
  "findall e path = filter (\<lambda>c. tag c = path) (children e)"

definition findtext :: "Element \<Rightarrow> string \<Rightarrow> string option" where
  "findtext e path =
     (case findall e path of
        [] \<Rightarrow> None
      | c # _ \<Rightarrow> Some (case elemText c of None \<Rightarrow> [] | Some s \<Rightarrow> s))"

text \<open>
  \<open>int(x)\<close> on what \<open>findtext\<close> returns. \<open>None\<close> is a \<open>TypeError\<close>. A string
  is read as a decimal literal: white space around it is dropped, one sign may come
  first, and at least one digit must follow and nothing else; any other string is a
  \<open>ValueError\<close>. Strings are byte strings and the value is unbounded.
\<close>

definition isspace :: "char \<Rightarrow> bool" where
  "isspace c \<longleftrightarrow> (of_char c :: nat) = 32 \<or> (9 \<le> (of_char c :: nat) \<and> (of_char c :: nat) \<le> 13)"

definition strip :: "string \<Rightarrow> string" where
  "strip s = rev (dropWhile isspace (rev (dropWhile isspace s)))"

definition digit_val :: "char \<Rightarrow> nat option" where
  "digit_val c =
     (if 48 \<le> (of_char c :: nat) \<and> (of_char c :: nat) \<le> 57 then Some (of_char c - 48) else None)"

fun digits_val :: "string \<Rightarrow> nat \<Rightarrow> nat option" where
  "digits_val [] acc = Some acc"
| "digits_val (c # cs) acc =
     (case digit_val c of None \<Rightarrow> None | Some d \<Rightarrow> digits_val cs (10 * acc + d))"

definition py_int :: "string option \<Rightarrow> pyerror + int" where
  "py_int x =
     (case x of
        None \<Rightarrow> Inl TypeError
      | Some s \<Rightarrow>
          (case strip s of
             [] \<Rightarrow> Inl ValueError
           | c # cs \<Rightarrow>
               (let negative = (c = CHR ''-'');
                    ds = (if c = CHR ''-'' \<or> c = CHR ''+'' then cs else c # cs)
                in if ds = [] then Inl ValueError
                   else (case digits_val ds 0 of
                           None \<Rightarrow> Inl ValueError
                         | Some n \<Rightarrow> Inr (if negative then - int n else int n)))))"







text \<open>
  The body of the loop of \<open>loadTasks\<close>: the arguments of \<open>Task(...)\<close> are
  evaluated from left to right, and the first \<open>int()\<close> that fails ends the load.
\<close>

definition taskFromElement :: "Element \<Rightarrow> pyerror + Task" where
  "taskFromElement te =
     (let n = findtext te ''name'' in
      case py_int (findtext te ''priority'') of
        Inl e \<Rightarrow> Inl e
      | Inr p \<Rightarrow>
          (case py_int (findtext te ''status'') of
             Inl e \<Rightarrow> Inl e
           | Inr st \<Rightarrow> Inr (Task_init n p st)))"

fun loadLoop :: "Element list \<Rightarrow> Task list \<Rightarrow> pyerror + Task list" where
  "loadLoop [] taskList = Inr taskList"
| "loadLoop (te # tes) taskList =
     (case taskFromElement te of
        Inl e \<Rightarrow> Inl e
      | Inr task \<Rightarrow> loadLoop tes (taskList @ [task]))"

definition loadTasks :: "fileState \<Rightarrow> pyerror + Task list" where
  "loadTasks tasksFile =
     (case tasksFile of
        NoFile \<Rightarrow> Inr [Task_default]
      | Unparsable \<Rightarrow> Inl ParseError
      | Document root \<Rightarrow>
          (let taskElements = findall root ''Task''
           in if taskElements = [] then Inr [Task_default]
              else loadLoop taskElements []))"

text \<open>
  \<open>TaskStore.__init__\<close>: the loaded tasks are new objects, so they make up the whole
  store of objects, each listed once; then \<open>resetTasks\<close> numbers them.
\<close>

definition TaskStore_init :: "fileState \<Rightarrow> pyerror + TaskStore" where
  "TaskStore_init tasksFile =
     (case loadTasks tasksFile of
        Inl e \<Rightarrow> Inl e
      | Inr ts \<Rightarrow> Inr (resetTasks \<lparr>heap = ts, tasks = [0..<length ts]\<rparr>))"









section \<open>The index assignments\<close>

lemma length_setIndex: "length (setIndex t i h) = length h"
  by (simp add: setIndex_def)

lemma setIndex_other: "r \<noteq> t \<Longrightarrow> setIndex t i h ! r = h ! r"
  by (simp add: setIndex_def)

lemma setIndex_same: "t < length h \<Longrightarrow> setIndex t i h ! t = (h ! t)\<lparr>index := i\<rparr>"
  by (simp add: setIndex_def)

lemma map_update_same:
  assumes "f y = f (xs ! k)"
  shows "map f (xs[k := y]) = map f xs"
proof (cases "k < length xs")
  case True
  with assms show ?thesis by (simp add: map_update list_update_same_conv)
next
  case False
  then have "xs[k := y] = xs" by (intro list_update_beyond) simp
  then show ?thesis by simp
qed

lemma setIndex_name: "map name (setIndex t i h) = map name h"
  by (simp add: setIndex_def map_update_same)

lemma setIndex_priority: "map priority (setIndex t i h) = map priority h"
  by (simp add: setIndex_def map_update_same)

lemma setIndex_status: "map status (setIndex t i h) = map status h"
  by (simp add: setIndex_def map_update_same)

text \<open>The enumerating loop, started at any count.\<close>

lemma assign_length:
  "length (fold (\<lambda>(i, task). setIndex task (int i)) (enumerate n ts) h) = length h"
  by (induction ts arbitrary: n h) (simp_all add: length_setIndex)

lemma assign_name:
  "map name (fold (\<lambda>(i, task). setIndex task (int i)) (enumerate n ts) h) = map name h"
  by (induction ts arbitrary: n h) (simp_all add: setIndex_name)

lemma assign_priority:
  "map priority (fold (\<lambda>(i, task). setIndex task (int i)) (enumerate n ts) h) = map priority h"
  by (induction ts arbitrary: n h) (simp_all add: setIndex_priority)

lemma assign_status:
  "map status (fold (\<lambda>(i, task). setIndex task (int i)) (enumerate n ts) h) = map status h"
  by (induction ts arbitrary: n h) (simp_all add: setIndex_status)

lemma assign_other:
  "r \<notin> set ts \<Longrightarrow>
   fold (\<lambda>(i, task). setIndex task (int i)) (enumerate n ts) h ! r = h ! r"
  by (induction ts arbitrary: n h) (auto simp: setIndex_other)

lemma assign_index:
  "distinct ts \<Longrightarrow> \<forall>t\<in>set ts. t < length h \<Longrightarrow> k < length ts \<Longrightarrow>
   index (fold (\<lambda>(i, task). setIndex task (int i)) (enumerate n ts) h ! (ts ! k)) = int (n + k)"
proof (induction ts arbitrary: n h k)
  case Nil
  then show ?case by simp
next
  case (Cons t ts)
  show ?case
  proof (cases k)
    case 0
    with Cons.prems show ?thesis
      by (simp add: assign_other setIndex_same)
  next
    case (Suc j)
    with Cons.prems Cons.IH [of "setIndex t (int n) h" j "Suc n"] show ?thesis
      by (simp add: length_setIndex)
  qed
qed

lemma assignIndices_length: "length (assignIndices ts h) = length h"
  by (simp add: assignIndices_def assign_length)

lemma assignIndices_other: "r \<notin> set ts \<Longrightarrow> assignIndices ts h ! r = h ! r"
  by (simp add: assignIndices_def assign_other)

lemma assignIndices_index:
  "distinct ts \<Longrightarrow> \<forall>t\<in>set ts. t < length h \<Longrightarrow> k < length ts \<Longrightarrow>
   index (assignIndices ts h ! (ts ! k)) = int k"
  using assign_index [of ts h k 0] by (simp add: assignIndices_def)

lemma assignIndices_map_index:
  "distinct ts \<Longrightarrow> \<forall>t\<in>set ts. t < length h \<Longrightarrow>
   map (\<lambda>t. index (assignIndices ts h ! t)) ts = map int [0..<length ts]"
  by (rule nth_equalityI) (simp_all add: assignIndices_index)

lemma assignIndices_name: "map name (assignIndices ts h) = map name h"
  by (simp add: assignIndices_def assign_name)

lemma assignIndices_priority: "map priority (assignIndices ts h) = map priority h"
  by (simp add: assignIndices_def assign_priority)

lemma assignIndices_status: "map status (assignIndices ts h) = map status h"
  by (simp add: assignIndices_def assign_status)

lemma setIndex_nth:
  "setIndex t i h ! r = (if r = t \<and> t < length h then (h ! t)\<lparr>index := i\<rparr> else h ! r)"
proof (cases "t < length h")
  case True
  then show ?thesis by (simp add: setIndex_def nth_list_update)
next
  case False
  then have "h[t := (h ! t)\<lparr>index := i\<rparr>] = h" by (intro list_update_beyond) simp
  with False show ?thesis by (simp add: setIndex_def)
qed

lemma setIndex_nth_status: "status (setIndex t i h ! r) = status (h ! r)"
  by (simp add: setIndex_nth)

lemma filter_fold_length:
  "length (fold (\<lambda>task h. if hf \<and> status (h ! task) = 2 then setIndex task (- 1) h else h) ts h)
   = length h"
  by (induction ts arbitrary: h) (simp_all add: length_setIndex)

lemma filter_fold_name:
  "map name (fold (\<lambda>task h. if hf \<and> status (h ! task) = 2 then setIndex task (- 1) h else h) ts h)
   = map name h"
  by (induction ts arbitrary: h) (simp_all add: setIndex_name)

lemma filter_fold_priority:
  "map priority (fold (\<lambda>task h. if hf \<and> status (h ! task) = 2 then setIndex task (- 1) h else h) ts h)
   = map priority h"
  by (induction ts arbitrary: h) (simp_all add: setIndex_priority)

lemma filter_fold_status:
  "map status (fold (\<lambda>task h. if hf \<and> status (h ! task) = 2 then setIndex task (- 1) h else h) ts h)
   = map status h"
  by (induction ts arbitrary: h) (simp_all add: setIndex_status)

lemma filter_fold_nth:
  "fold (\<lambda>task h. if hf \<and> status (h ! task) = 2 then setIndex task (- 1) h else h) ts h ! r
   = (if hf \<and> r \<in> set ts \<and> r < length h \<and> status (h ! r) = 2
      then (h ! r)\<lparr>index := - 1\<rparr> else h ! r)"
proof (induction ts arbitrary: h)
  case Nil
  then show ?case by simp
next
  case (Cons t ts)
  show ?case
    by (auto simp: Cons.IH length_setIndex setIndex_nth)
qed

lemma filterFinished_False: "filterFinished False s = s"
proof -
  have "fold (\<lambda>task h. h) ts h = h" for ts :: "ref list" and h :: "Task list"
    by (induction ts) simp_all
  then show ?thesis by (simp add: filterFinished_def)
qed

lemma filterFinished_nth:
  "heap (filterFinished hf s) ! r =
     (if hf \<and> r \<in> set (tasks s) \<and> r < length (heap s) \<and> status (heap s ! r) = 2
      then (heap s ! r)\<lparr>index := - 1\<rparr> else heap s ! r)"
  by (simp add: filterFinished_def filter_fold_nth)

lemma tasks_filterFinished: "tasks (filterFinished hf s) = tasks s"
  by (simp add: filterFinished_def)

lemma length_heap_filterFinished: "length (heap (filterFinished hf s)) = length (heap s)"
  by (simp add: filterFinished_def filter_fold_length)

text \<open>
  Claim C3. \<open>filterFinished(False)\<close> changes nothing. \<open>filterFinished(True)\<close> keeps
  the collection, gives index \<open>-1\<close> to every task of the collection whose status is 2
  (Finished), leaves the index of every other task of the collection as it was, and
  leaves every object outside the collection as it was.
\<close>

theorem filterFinished_effect:
  assumes "validRefs s"
  shows "filterFinished False s = s \<and>
         tasks (filterFinished True s) = tasks s \<and>
         (\<forall>t\<in>set (tasks s). index (heap (filterFinished True s) ! t) =
              (if status (heap s ! t) = 2 then - 1 else index (heap s ! t))) \<and>
         (\<forall>r. r \<notin> set (tasks s) \<longrightarrow> heap (filterFinished True s) ! r = heap s ! r)"
  using assms
  by (simp add: validRefs_def list_all_iff filterFinished_False tasks_filterFinished
      filterFinished_nth)

theorem filterFinished_effect_witness:
  "validRefs exampleStore \<and>
   map (\<lambda>t. index (heap (filterFinished True exampleStore) ! t)) (tasks exampleStore)
     = [- 1, 0, - 1]"
proof -
  have v: "validRefs exampleStore"
    by (simp add: validRefs_def exampleStore_def)
  from filterFinished_effect [OF v]
  have "\<forall>t\<in>set (tasks exampleStore). index (heap (filterFinished True exampleStore) ! t) =
          (if status (heap exampleStore ! t) = 2 then - 1 else index (heap exampleStore ! t))"
    by blast
  then have "map (\<lambda>t. index (heap (filterFinished True exampleStore) ! t)) (tasks exampleStore)
     = map (\<lambda>t. if status (heap exampleStore ! t) = 2 then - 1 else index (heap exampleStore ! t))
           (tasks exampleStore)"
    by simp
  also have "\<dots> = [- 1, 0, - 1]" by (simp add: exampleStore_def)
  finally show ?thesis using v by simp
qed

lemma onlyIndexChanged_resetTasks: "onlyIndexChanged s (resetTasks s)"
  by (simp add: onlyIndexChanged_def resetTasks_def assignIndices_name
      assignIndices_priority assignIndices_status)

lemma onlyIndexChanged_filterFinished: "onlyIndexChanged s (filterFinished hf s)"
  by (simp add: onlyIndexChanged_def filterFinished_def filter_fold_name
      filter_fold_priority filter_fold_status)

lemma onlyIndexChanged_sortByPriority: "onlyIndexChanged s (sortByPriority active s)"
  by (simp add: onlyIndexChanged_def sortByPriority_def assignIndices_name
      assignIndices_priority assignIndices_status)

text \<open>
  Claim C10. \<open>resetTasks\<close>, \<open>filterFinished\<close> and \<open>sortByPriority\<close> change
  nothing but index attributes: the collection (its members and their storage order) and
  the name, priority and status of every object stay as they were.
\<close>

theorem index_operations_frame:
  "onlyIndexChanged s (resetTasks s) \<and>
   onlyIndexChanged s (filterFinished hideFinished s) \<and>
   onlyIndexChanged s (sortByPriority active s)"
  by (simp add: onlyIndexChanged_resetTasks onlyIndexChanged_filterFinished
      onlyIndexChanged_sortByPriority)

section \<open>Sorting by priority\<close>

lemma insort_key_cong_set:
  assumes fx: "f x = g x" and rest: "\<forall>y\<in>set ys. f y = g y"
  shows "insort_key f x ys = insort_key g x ys"
  using rest
proof (induction ys)
  case Nil
  show ?case by (simp only: insort_key.simps)
next
  case (Cons y ys)
  from Cons.prems have fy: "f y = g y" and r: "\<forall>z\<in>set ys. f z = g z"
    by simp_all
  from Cons.IH [OF r] have ih: "insort_key f x ys = insort_key g x ys" .
  show ?case
    unfolding insort_key.simps ih fy fx ..
qed

lemma sort_key_cong_set:
  assumes "\<forall>x\<in>set xs. f x = g x"
  shows "sort_key f xs = sort_key g xs"
  using assms
proof (induction xs)
  case Nil
  show ?case by (simp only: sort_key_simps)
next
  case (Cons x xs)
  from Cons.prems have fx: "f x = g x" and r: "\<forall>z\<in>set xs. f z = g z"
    by simp_all
  from Cons.IH [OF r] have ih: "sort_key f xs = sort_key g xs" .
  have "\<forall>z\<in>set (sort_key g xs). f z = g z"
    using r by (simp only: set_sort)
  from insort_key_cong_set [OF fx this] show ?case
    by (simp only: sort_key_simps ih)
qed

lemma set_sortedTasks: "set (sortedTasks active s) = set (activeTasks s)"
  by (simp add: sortedTasks_def activeTasks_def Let_def)

lemma mset_sortedTasks: "mset (sortedTasks active s) = mset (activeTasks s)"
  by (simp add: sortedTasks_def activeTasks_def Let_def)

lemma length_sortedTasks: "length (sortedTasks active s) = length (activeTasks s)"
  by (simp add: sortedTasks_def activeTasks_def Let_def)

lemma distinct_sortedTasks: "distinct (tasks s) \<Longrightarrow> distinct (sortedTasks active s)"
  by (simp add: sortedTasks_def Let_def)

lemma filter_sortedTasks:
  "filter (\<lambda>t. 0 \<le> index (heap s ! t)) (sortedTasks active s) = sortedTasks active s"
  by (rule filter_True) (simp add: set_sortedTasks activeTasks_def)

lemma heap_sortByPriority:
  "heap (sortByPriority active s) = assignIndices (sortedTasks active s) (heap s)"
  by (simp add: sortByPriority_def filter_sortedTasks)

lemma tasks_sortByPriority: "tasks (sortByPriority active s) = tasks s"
  by (simp add: sortByPriority_def)

lemma sortByPriority_other:
  "r \<notin> set (activeTasks s) \<Longrightarrow> heap (sortByPriority active s) ! r = heap s ! r"
  by (simp add: heap_sortByPriority assignIndices_other set_sortedTasks)

lemma sortByPriority_ranks:
  assumes "wf s"
  shows "map (\<lambda>t. index (heap (sortByPriority active s) ! t)) (sortedTasks active s)
         = map int [0..<length (activeTasks s)]"
proof -
  have d: "distinct (sortedTasks active s)"
    using assms by (simp add: wf_def distinct_sortedTasks)
  have v: "\<forall>t\<in>set (sortedTasks active s). t < length (heap s)"
    using assms by (auto simp: wf_def validRefs_def list_all_iff set_sortedTasks activeTasks_def)
  from assignIndices_map_index [OF d v] show ?thesis
    by (simp add: heap_sortByPriority length_sortedTasks)
qed

lemma sortedTasks_ascending:
  "sorted (map (\<lambda>t. priority (heap s ! t)) (sortedTasks False s))"
  by (simp add: sortedTasks_def)

lemma sortedTasks_descending:
  "sorted (rev (map (\<lambda>t. priority (heap s ! t)) (sortedTasks True s)))"
  by (simp add: sortedTasks_def rev_map)

lemma sortedTasks_ties_ascending:
  "filter (\<lambda>t. priority (heap s ! t) = p) (sortedTasks False s)
   = filter (\<lambda>t. priority (heap s ! t) = p) (activeTasks s)"
  by (simp add: sortedTasks_def activeTasks_def sort_key_stable)

lemma sortedTasks_ties_descending:
  "filter (\<lambda>t. priority (heap s ! t) = p) (sortedTasks True s)
   = rev (filter (\<lambda>t. priority (heap s ! t) = p) (activeTasks s))"
proof -
  have "filter (\<lambda>t. priority (heap s ! t) = p) (sortedTasks True s)
        = rev (filter (\<lambda>t. priority (heap s ! t) = p)
                 (sort_key (\<lambda>t. priority (heap s ! t)) (activeTasks s)))"
    by (simp only: sortedTasks_def activeTasks_def Let_def if_True rev_filter)
  then show ?thesis by (simp only: sort_key_stable)
qed

section \<open>Renumbering in storage order\<close>

lemma map_eq_nth:
  assumes "map f xs = map f ys" and "r < length ys"
  shows "f (xs ! r) = f (ys ! r)"
proof -
  have l: "length xs = length ys" using assms(1) by (rule map_eq_imp_length_eq)
  have "map f xs ! r = map f ys ! r" using assms(1) by simp
  with l assms(2) show ?thesis by simp
qed

lemma onlyIndexChanged_status:
  assumes "onlyIndexChanged s s'" and "r < length (heap s)"
  shows "status (heap s' ! r) = status (heap s ! r)"
proof (rule map_eq_nth)
  show "map status (heap s') = map status (heap s)"
    using assms(1) by (simp add: onlyIndexChanged_def)
qed (rule assms(2))

lemma onlyIndexChanged_priority:
  assumes "onlyIndexChanged s s'" and "r < length (heap s)"
  shows "priority (heap s' ! r) = priority (heap s ! r)"
proof (rule map_eq_nth)
  show "map priority (heap s') = map priority (heap s)"
    using assms(1) by (simp add: onlyIndexChanged_def)
qed (rule assms(2))

lemma onlyIndexChanged_length:
  "onlyIndexChanged s s' \<Longrightarrow> length (heap s') = length (heap s)"
  by (auto simp: onlyIndexChanged_def dest: map_eq_imp_length_eq)

lemma onlyIndexChanged_wf: "onlyIndexChanged s s' \<Longrightarrow> wf s \<Longrightarrow> wf s'"
  by (frule onlyIndexChanged_length) (simp add: onlyIndexChanged_def wf_def validRefs_def)

lemma wf_valid: "wf s \<Longrightarrow> t \<in> set (tasks s) \<Longrightarrow> t < length (heap s)"
  by (simp add: wf_def validRefs_def list_all_iff)

lemma tasks_resetTasks: "tasks (resetTasks s) = tasks s"
  by (simp add: resetTasks_def)

lemma resetTasks_other: "r \<notin> set (tasks s) \<Longrightarrow> heap (resetTasks s) ! r = heap s ! r"
  by (simp add: resetTasks_def assignIndices_other)

lemma resetTasks_ranks:
  assumes "wf s"
  shows "map (\<lambda>t. index (heap (resetTasks s) ! t)) (tasks s) = map int [0..<length (tasks s)]"
proof -
  have d: "distinct (tasks s)" using assms by (simp add: wf_def)
  have v: "\<forall>t\<in>set (tasks s). t < length (heap s)"
    using assms by (simp add: wf_valid)
  from assignIndices_map_index [OF d v] show ?thesis by (simp add: resetTasks_def)
qed

lemma resetTasks_index:
  assumes "wf s" and "k < length (tasks s)"
  shows "index (heap (resetTasks s) ! (tasks s ! k)) = int k"
proof -
  have "map (\<lambda>t. index (heap (resetTasks s) ! t)) (tasks s) ! k = map int [0..<length (tasks s)] ! k"
    using resetTasks_ranks [OF assms(1)] by simp
  with assms(2) show ?thesis by simp
qed

lemma resetTasks_nonneg:
  assumes "wf s" and "t \<in> set (tasks s)"
  shows "0 \<le> index (heap (resetTasks s) ! t)"
proof -
  from assms(2) obtain k where "k < length (tasks s)" and "tasks s ! k = t"
    by (auto simp: in_set_conv_nth)
  with resetTasks_index [OF assms(1), of k] show ?thesis by simp
qed

section \<open>The recompute pass\<close>

lemma onlyIndexChanged_trans:
  "onlyIndexChanged s s' \<Longrightarrow> onlyIndexChanged s' s'' \<Longrightarrow> onlyIndexChanged s s''"
  by (simp add: onlyIndexChanged_def)

lemma onlyIndexChanged_reset_filter:
  "onlyIndexChanged s (filterFinished hide (resetTasks s))"
  by (rule onlyIndexChanged_trans [OF onlyIndexChanged_resetTasks onlyIndexChanged_filterFinished])

lemma reset_filter_index:
  assumes "wf s" and "t \<in> set (tasks s)"
  shows "index (heap (filterFinished hide (resetTasks s)) ! t) =
         (if hide \<and> status (heap s ! t) = 2 then - 1 else index (heap (resetTasks s) ! t))"
proof -
  have v: "t < length (heap s)" using assms by (rule wf_valid)
  have st: "status (heap (resetTasks s) ! t) = status (heap s ! t)"
    using onlyIndexChanged_resetTasks v by (rule onlyIndexChanged_status)
  have l: "length (heap (resetTasks s)) = length (heap s)"
    using onlyIndexChanged_resetTasks by (rule onlyIndexChanged_length)
  show ?thesis
    using assms(2) v by (simp add: filterFinished_nth tasks_resetTasks st l)
qed

lemma reset_filter_active:
  assumes "wf s"
  shows "activeTasks (filterFinished hide (resetTasks s)) = visibleTasks hide s"
proof -
  have "\<And>t. t \<in> set (tasks s) \<Longrightarrow>
      (0 \<le> index (heap (filterFinished hide (resetTasks s)) ! t)) =
      (\<not> (hide \<and> status (heap s ! t) = 2))"
    using resetTasks_nonneg [OF assms] by (simp add: reset_filter_index [OF assms])
  then show ?thesis
    unfolding activeTasks_def visibleTasks_def tasks_filterFinished tasks_resetTasks
    by (intro filter_cong refl)
qed

lemma reset_filter_sorted:
  assumes "wf s"
  shows "sortedTasks descending (filterFinished hide (resetTasks s)) = displayOrder hide descending s"
proof -
  let ?s2 = "filterFinished hide (resetTasks s)"
  have a: "filter (\<lambda>t. 0 \<le> index (heap ?s2 ! t)) (tasks ?s2) = visibleTasks hide s"
    using reset_filter_active [OF assms, of hide] by (simp add: activeTasks_def)
  have "\<forall>t\<in>set (visibleTasks hide s). priority (heap ?s2 ! t) = priority (heap s ! t)"
  proof
    fix t assume "t \<in> set (visibleTasks hide s)"
    then have "t \<in> set (tasks s)" by (simp add: visibleTasks_def)
    with assms have "t < length (heap s)" by (rule wf_valid)
    with onlyIndexChanged_reset_filter show "priority (heap ?s2 ! t) = priority (heap s ! t)"
      by (rule onlyIndexChanged_priority)
  qed
  then have "sort_key (\<lambda>t. priority (heap ?s2 ! t)) (visibleTasks hide s)
           = sort_key (\<lambda>t. priority (heap s ! t)) (visibleTasks hide s)"
    by (rule sort_key_cong_set)
  then show ?thesis
    by (simp only: sortedTasks_def displayOrder_def a)
qed

lemma set_displayOrder: "set (displayOrder hide descending s) = set (visibleTasks hide s)"
  by (simp add: displayOrder_def Let_def)

lemma distinct_displayOrder: "distinct (tasks s) \<Longrightarrow> distinct (displayOrder hide descending s)"
  by (simp add: displayOrder_def visibleTasks_def Let_def)

lemma recompute_ranks:
  assumes "wf s"
  shows "map (\<lambda>t. index (heap (applyFilterAndSorting hide descending s) ! t))
             (displayOrder hide descending s)
         = map int [0..<length (visibleTasks hide s)]"
proof -
  have "wf (filterFinished hide (resetTasks s))"
    using onlyIndexChanged_reset_filter assms by (rule onlyIndexChanged_wf)
  from sortByPriority_ranks [OF this, of descending] show ?thesis
    by (simp only: applyFilterAndSorting_def reset_filter_sorted [OF assms]
        reset_filter_active [OF assms])
qed

lemma recompute_hidden:
  assumes "wf s" and "t \<in> set (tasks s)" and "t \<notin> set (visibleTasks hide s)"
  shows "index (heap (applyFilterAndSorting hide descending s) ! t) = - 1"
proof -
  let ?s2 = "filterFinished hide (resetTasks s)"
  have "t \<notin> set (activeTasks ?s2)"
    using assms(3) by (simp add: reset_filter_active [OF assms(1)])
  then have "heap (sortByPriority descending ?s2) ! t = heap ?s2 ! t"
    by (rule sortByPriority_other)
  moreover have "hide \<and> status (heap s ! t) = 2"
    using assms(2,3) by (simp add: visibleTasks_def)
  ultimately show ?thesis
    by (simp add: applyFilterAndSorting_def reset_filter_index [OF assms(1,2)])
qed

lemma map_int_upt_nonneg:
  assumes "map f xs = map int [0..<n]" and "x \<in> set xs"
  shows "0 \<le> f x"
proof -
  from assms(2) have "f x \<in> set (map f xs)" by simp
  then have "f x \<in> set (map int [0..<n])" by (simp only: assms(1))
  then show ?thesis by auto
qed

lemma map_int_upt_inj:
  assumes "map f xs = map int [0..<n]"
  shows "inj_on f (set xs)"
proof -
  have "distinct (map int [0..<n])" by (simp add: distinct_map)
  then have "distinct (map f xs)" by (simp only: assms)
  then show ?thesis by (simp add: distinct_map)
qed

text \<open>
  Claim C1. After one recompute pass (\<open>resetTasks\<close>, \<open>filterFinished(hide)\<close>,
  \<open>sortByPriority(descending)\<close>) on a well-formed store, the tasks of the collection
  with a non-negative index are exactly the visible ones, the visible tasks taken in
  display order carry the indices \<open>0, 1, ..., k-1\<close>, and no two visible tasks share
  an index.
\<close>

theorem recompute_invariant:
  assumes "wf s"
  shows "tasks (applyFilterAndSorting hide descending s) = tasks s \<and>
         (\<forall>t\<in>set (tasks s).
            (0 \<le> index (heap (applyFilterAndSorting hide descending s) ! t))
            = (t \<in> set (visibleTasks hide s))) \<and>
         set (displayOrder hide descending s) = set (visibleTasks hide s) \<and>
         map (\<lambda>t. index (heap (applyFilterAndSorting hide descending s) ! t))
             (displayOrder hide descending s)
           = map int [0..<length (visibleTasks hide s)] \<and>
         inj_on (\<lambda>t. index (heap (applyFilterAndSorting hide descending s) ! t))
                (set (visibleTasks hide s))"
proof (intro conjI ballI)
  show "tasks (applyFilterAndSorting hide descending s) = tasks s"
    by (simp add: applyFilterAndSorting_def tasks_sortByPriority tasks_filterFinished
        tasks_resetTasks)
next
  fix t assume t: "t \<in> set (tasks s)"
  show "(0 \<le> index (heap (applyFilterAndSorting hide descending s) ! t))
        = (t \<in> set (visibleTasks hide s))"
  proof (cases "t \<in> set (visibleTasks hide s)")
    case True
    then have "t \<in> set (displayOrder hide descending s)" by (simp only: set_displayOrder)
    with recompute_ranks [OF assms, of hide descending]
    have "0 \<le> index (heap (applyFilterAndSorting hide descending s) ! t)"
      by (rule map_int_upt_nonneg)
    with True show ?thesis by simp
  next
    case False
    with recompute_hidden [OF assms t, of hide descending] show ?thesis by simp
  qed
next
  show "set (displayOrder hide descending s) = set (visibleTasks hide s)"
    by (rule set_displayOrder)
next
  show "map (\<lambda>t. index (heap (applyFilterAndSorting hide descending s) ! t))
             (displayOrder hide descending s)
        = map int [0..<length (visibleTasks hide s)]"
    using assms by (rule recompute_ranks)
next
  have "inj_on (\<lambda>t. index (heap (applyFilterAndSorting hide descending s) ! t))
               (set (displayOrder hide descending s))"
    using recompute_ranks [OF assms] by (rule map_int_upt_inj)
  then show "inj_on (\<lambda>t. index (heap (applyFilterAndSorting hide descending s) ! t))
                    (set (visibleTasks hide s))"
    by (simp only: set_displayOrder)
qed

theorem recompute_invariant_witness:
  "wf exampleStore \<and>
   displayOrder False True exampleStore = [1, 2, 0] \<and>
   map (\<lambda>t. index (heap (applyFilterAndSorting False True exampleStore) ! t)) [1, 2, 0]
     = [0, 1, 2] \<and>
   displayOrder True True exampleStore = [1] \<and>
   map (\<lambda>t. index (heap (applyFilterAndSorting True True exampleStore) ! t)) [1] = [0]"
proof -
  have w: "wf exampleStore"
    by (simp add: wf_def validRefs_def exampleStore_def)
  have v1: "visibleTasks False exampleStore = [0, 1, 2]"
    by (simp add: visibleTasks_def exampleStore_def)
  have d1: "displayOrder False True exampleStore = [1, 2, 0]"
    by (simp add: displayOrder_def v1) (simp add: exampleStore_def)
  have v2: "visibleTasks True exampleStore = [1]"
    by (simp add: visibleTasks_def exampleStore_def)
  have d2: "displayOrder True True exampleStore = [1]"
    by (simp add: displayOrder_def v2)
  have u: "map int [0..<3] = [0, 1, 2]" by (simp add: upt_rec)
  from recompute_invariant [OF w, of False True]
  have r1: "map (\<lambda>t. index (heap (applyFilterAndSorting False True exampleStore) ! t)) [1, 2, 0]
            = [0, 1, 2]"
    by (simp only: d1 v1) (simp add: u)
  from recompute_invariant [OF w, of True True]
  have r2: "map (\<lambda>t. index (heap (applyFilterAndSorting True True exampleStore) ! t)) [1] = [0]"
    by (simp only: d2 v2) simp
  from w d1 r1 d2 r2 show ?thesis by (intro conjI)
qed

section \<open>What \<open>sortByPriority\<close> does\<close>

text \<open>
  Claim C2 as stated fails for ties in descending mode: the ascending order is reversed
  as a whole, so two tasks of equal priority come out in reverse storage order. Task 0 is
  stored before task 1, both have priority 1, and \<open>sortByPriority(True)\<close> ranks
  task 1 first.
\<close>

theorem sortByPriority_ties_counterexample:
  "tasks tieStore = [0, 1] \<and>
   priority (heap tieStore ! 0) = priority (heap tieStore ! 1) \<and>
   index (heap tieStore ! 0) = 0 \<and> index (heap tieStore ! 1) = 1 \<and>
   sortedTasks True tieStore = [1, 0] \<and>
   index (heap (sortByPriority True tieStore) ! 0) = 1 \<and>
   index (heap (sortByPriority True tieStore) ! 1) = 0"
proof -
  have st: "sortedTasks True tieStore = [1, 0]"
    by (simp add: sortedTasks_def tieStore_def)
  have h: "heap (sortByPriority True tieStore) = assignIndices [1, 0] (heap tieStore)"
    by (simp add: heap_sortByPriority st)
  show ?thesis
    by (simp add: st h) (simp add: tieStore_def assignIndices_def setIndex_def)
qed

text \<open>
  Claim C2, amended. On a well-formed store \<open>sortByPriority(active)\<close> keeps the
  collection, considers exactly the tasks with a non-negative index, orders them by
  ascending priority (the whole order reversed when \<open>active\<close>), gives them the indices
  \<open>0, 1, ..., k-1\<close> in that order, and leaves every other object as it was. Tasks of
  equal priority keep their storage order when ascending and come in reverse storage
  order when descending.
\<close>

theorem sortByPriority_effect:
  assumes "wf s"
  shows "tasks (sortByPriority active s) = tasks s \<and>
         mset (sortedTasks active s) = mset (activeTasks s) \<and>
         sorted (map (\<lambda>t. priority (heap s ! t))
                     (if active then rev (sortedTasks active s) else sortedTasks active s)) \<and>
         map (\<lambda>t. index (heap (sortByPriority active s) ! t)) (sortedTasks active s)
           = map int [0..<length (activeTasks s)] \<and>
         (\<forall>r. r \<notin> set (activeTasks s) \<longrightarrow> heap (sortByPriority active s) ! r = heap s ! r) \<and>
         (\<forall>p. filter (\<lambda>t. priority (heap s ! t) = p) (sortedTasks active s)
              = (if active then rev (filter (\<lambda>t. priority (heap s ! t) = p) (activeTasks s))
                 else filter (\<lambda>t. priority (heap s ! t) = p) (activeTasks s)))"
proof (intro conjI allI impI)
  show "tasks (sortByPriority active s) = tasks s" by (rule tasks_sortByPriority)
  show "mset (sortedTasks active s) = mset (activeTasks s)" by (rule mset_sortedTasks)
  show "sorted (map (\<lambda>t. priority (heap s ! t))
                     (if active then rev (sortedTasks active s) else sortedTasks active s))"
  proof (cases active)
    case True
    with sortedTasks_descending [of s] show ?thesis by (simp add: rev_map)
  next
    case False
    with sortedTasks_ascending [of s] show ?thesis by simp
  qed
  show "map (\<lambda>t. index (heap (sortByPriority active s) ! t)) (sortedTasks active s)
           = map int [0..<length (activeTasks s)]"
    using assms by (rule sortByPriority_ranks)
  show "heap (sortByPriority active s) ! r = heap s ! r" if "r \<notin> set (activeTasks s)" for r
    using that by (rule sortByPriority_other)
  show "filter (\<lambda>t. priority (heap s ! t) = p) (sortedTasks active s)
              = (if active then rev (filter (\<lambda>t. priority (heap s ! t) = p) (activeTasks s))
                 else filter (\<lambda>t. priority (heap s ! t) = p) (activeTasks s))" for p
  proof (cases active)
    case True
    with sortedTasks_ties_descending [of s p] show ?thesis by simp
  next
    case False
    with sortedTasks_ties_ascending [of s p] show ?thesis by simp
  qed
qed

theorem sortByPriority_effect_witness:
  "wf tieStore \<and>
   sortedTasks False tieStore = [0, 1] \<and>
   map (\<lambda>t. index (heap (sortByPriority False tieStore) ! t)) [0, 1] = [0, 1] \<and>
   sortedTasks True tieStore = [1, 0] \<and>
   map (\<lambda>t. index (heap (sortByPriority True tieStore) ! t)) [1, 0] = [0, 1]"
proof -
  have w: "wf tieStore"
    by (simp add: wf_def validRefs_def tieStore_def)
  have a: "activeTasks tieStore = [0, 1]"
    by (simp add: activeTasks_def tieStore_def)
  have s1: "sortedTasks False tieStore = [0, 1]"
    by (simp add: sortedTasks_def tieStore_def)
  have s2: "sortedTasks True tieStore = [1, 0]"
    by (simp add: sortedTasks_def tieStore_def)
  have u: "map int [0..<2] = [0, 1]" by (simp add: upt_rec)
  from sortByPriority_effect [OF w, of False]
  have r1: "map (\<lambda>t. index (heap (sortByPriority False tieStore) ! t)) [0, 1] = [0, 1]"
    by (simp only: s1 a) (simp add: u)
  from sortByPriority_effect [OF w, of True]
  have r2: "map (\<lambda>t. index (heap (sortByPriority True tieStore) ! t)) [1, 0] = [0, 1]"
    by (simp only: s2 a) (simp add: u)
  from w s1 r1 s2 r2 show ?thesis by (intro conjI)
qed

section \<open>Adding and deleting tasks\<close>

lemma wf_addTask: "wf s \<Longrightarrow> wf (snd (addTask s))"
  by (auto simp: addTask_def Let_def wf_def validRefs_def list_all_iff)

text \<open>
  Claim C6. \<open>addTask\<close> creates a task with the default field values (name
  \<open>new task\<close>, priority 1, status 0; its index is 0), puts it at storage position 0
  in front of the tasks stored before, which keep their order, changes no other object,
  and returns the new task. The new task is an object of its own: it is none of the
  tasks stored before.
\<close>

theorem addTask_effect:
  "fst (addTask s) = length (heap s) \<and>
   heap (snd (addTask s)) = heap s @ [Task_default] \<and>
   heap (snd (addTask s)) ! fst (addTask s)
     = \<lparr>name = Some ''new task'', priority = 1, status = 0, index = 0\<rparr> \<and>
   tasks (snd (addTask s)) = fst (addTask s) # tasks s \<and>
   (validRefs s \<longrightarrow> fst (addTask s) \<notin> set (tasks s) \<and> validRefs (snd (addTask s)))"
  by (auto simp: addTask_def Let_def Task_default_def Task_init_def validRefs_def list_all_iff)

theorem addTask_effect_witness:
  "validRefs twinStore \<and> fst (addTask twinStore) = 2 \<and>
   tasks (snd (addTask twinStore)) = [2, 0, 1] \<and>
   fst (addTask twinStore) \<notin> set (tasks twinStore)"
proof -
  have v: "validRefs twinStore" by (simp add: validRefs_def twinStore_def)
  have l: "length (heap twinStore) = 2" and t: "tasks twinStore = [0, 1]"
    by (simp_all add: twinStore_def)
  from addTask_effect [of twinStore]
  have f: "fst (addTask twinStore) = length (heap twinStore)"
    and k: "tasks (snd (addTask twinStore)) = fst (addTask twinStore) # tasks twinStore"
    and n: "validRefs twinStore \<longrightarrow> fst (addTask twinStore) \<notin> set (tasks twinStore)"
    by blast+
  from n v have "fst (addTask twinStore) \<notin> set (tasks twinStore)" by blast
  with v f k show ?thesis by (simp add: l t)
qed

lemma tasks_deleteTask: "tasks (deleteTask t s) = filter (\<lambda>task. t \<noteq> task) (tasks s)"
  by (simp add: deleteTask_def tasks_resetTasks)

lemma filter_neq_remove1: "distinct xs \<Longrightarrow> filter (\<lambda>y. x \<noteq> y) xs = remove1 x xs"
  by (induction xs) (auto simp: filter_id_conv)

lemma wf_deleteTask_pre:
  "wf s \<Longrightarrow> wf \<lparr>heap = setIndex t i (heap s), tasks = filter (\<lambda>task. t \<noteq> task) (tasks s)\<rparr>"
  by (auto simp: wf_def validRefs_def list_all_iff length_setIndex)

lemma wf_deleteTask: "wf s \<Longrightarrow> wf (deleteTask t s)"
  unfolding deleteTask_def
  by (rule onlyIndexChanged_wf [OF onlyIndexChanged_resetTasks wf_deleteTask_pre])

lemma deleteTask_removed_index:
  assumes "t < length (heap s)"
  shows "index (heap (deleteTask t s) ! t) = - 2"
proof -
  let ?s' = "\<lparr>heap = setIndex t (- 2) (heap s), tasks = filter (\<lambda>task. t \<noteq> task) (tasks s)\<rparr>"
  have "t \<notin> set (tasks ?s')" by simp
  then have "heap (resetTasks ?s') ! t = heap ?s' ! t" by (rule resetTasks_other)
  with assms show ?thesis by (simp add: deleteTask_def setIndex_same)
qed

lemma deleteTask_ranks:
  assumes "wf s"
  shows "map (\<lambda>r. index (heap (deleteTask t s) ! r)) (tasks (deleteTask t s))
         = map int [0..<length (tasks (deleteTask t s))]"
proof -
  let ?s' = "\<lparr>heap = setIndex t (- 2) (heap s), tasks = filter (\<lambda>task. t \<noteq> task) (tasks s)\<rparr>"
  have "wf ?s'" using assms by (rule wf_deleteTask_pre)
  from resetTasks_ranks [OF this] show ?thesis
    by (simp add: deleteTask_def tasks_resetTasks)
qed

lemma deleteTask_fields:
  "map name (heap (deleteTask t s)) = map name (heap s) \<and>
   map priority (heap (deleteTask t s)) = map priority (heap s) \<and>
   map status (heap (deleteTask t s)) = map status (heap s)"
  by (simp add: deleteTask_def resetTasks_def assignIndices_name assignIndices_priority
      assignIndices_status setIndex_name setIndex_priority setIndex_status)

text \<open>
  Claim C7. On a well-formed store that contains the task \<open>t\<close>, \<open>deleteTask\<close>
  removes exactly \<open>t\<close>: the collection loses one member, every other member stays,
  also one with the same field values as \<open>t\<close>, in the same relative order; the
  remaining tasks are then numbered \<open>0, 1, ..., n-1\<close> in storage order, and no
  name, priority or status changes.
\<close>

theorem deleteTask_effect:
  assumes "wf s" and "t \<in> set (tasks s)"
  shows "tasks (deleteTask t s) = remove1 t (tasks s) \<and>
         Suc (length (tasks (deleteTask t s))) = length (tasks s) \<and>
         t \<notin> set (tasks (deleteTask t s)) \<and>
         (\<forall>r\<in>set (tasks s). r \<noteq> t \<longrightarrow> r \<in> set (tasks (deleteTask t s))) \<and>
         map (\<lambda>r. index (heap (deleteTask t s) ! r)) (tasks (deleteTask t s))
           = map int [0..<length (tasks (deleteTask t s))] \<and>
         map name (heap (deleteTask t s)) = map name (heap s) \<and>
         map priority (heap (deleteTask t s)) = map priority (heap s) \<and>
         map status (heap (deleteTask t s)) = map status (heap s)"
proof -
  have d: "distinct (tasks s)" using assms(1) by (simp add: wf_def)
  have r: "tasks (deleteTask t s) = remove1 t (tasks s)"
    by (simp add: tasks_deleteTask filter_neq_remove1 [OF d])
  have l: "Suc (length (tasks (deleteTask t s))) = length (tasks s)"
    using assms(2) by (simp add: r length_remove1) (cases "tasks s", auto)
  have n: "t \<notin> set (tasks (deleteTask t s))" by (simp add: tasks_deleteTask)
  have k: "\<forall>r\<in>set (tasks s). r \<noteq> t \<longrightarrow> r \<in> set (tasks (deleteTask t s))"
    by (auto simp: tasks_deleteTask)
  from r l n k deleteTask_ranks [OF assms(1), of t] deleteTask_fields [of t s]
  show ?thesis by (intro conjI) simp_all
qed

theorem deleteTask_effect_witness:
  "wf twinStore \<and> 0 \<in> set (tasks twinStore) \<and>
   heap twinStore ! 0 = heap twinStore ! 1 \<and>
   tasks (deleteTask 0 twinStore) = [1] \<and>
   map (\<lambda>r. index (heap (deleteTask 0 twinStore) ! r)) [1] = [0]"
proof -
  have w: "wf twinStore" by (simp add: wf_def validRefs_def twinStore_def)
  have m: "0 \<in> set (tasks twinStore)" by (simp add: twinStore_def)
  have e: "heap twinStore ! 0 = heap twinStore ! 1" by (simp add: twinStore_def)
  have t: "remove1 0 (tasks twinStore) = [1]" by (simp add: twinStore_def)
  from deleteTask_effect [OF w m]
  have r: "tasks (deleteTask 0 twinStore) = [1]" by (simp only: t)
  from deleteTask_effect [OF w m]
  have "map (\<lambda>r. index (heap (deleteTask 0 twinStore) ! r)) (tasks (deleteTask 0 twinStore))
        = map int [0..<length (tasks (deleteTask 0 twinStore))]"
    by blast
  then have "map (\<lambda>r. index (heap (deleteTask 0 twinStore) ! r)) [1] = [0]"
    by (simp add: r)
  with w m e r show ?thesis by (intro conjI)
qed

text \<open>
  Claim C8 as stated fails: \<open>deleteTask\<close> itself assigns \<open>-2\<close> to the index of the
  task it removes. The task had index 0 before the call and has index \<open>-2\<close> after it.
\<close>

theorem deleteTask_sentinel_counterexample:
  "index (heap twinStore ! 0) = 0 \<and> index (heap (deleteTask 0 twinStore) ! 0) = - 2"
  by (simp add: deleteTask_def resetTasks_def assignIndices_def setIndex_def twinStore_def)

text \<open>
  Claim C8, amended. \<open>deleteTask\<close> itself sets the index of the task it removes to
  \<open>-2\<close>, and the task is no longer in the collection afterwards, so the renumbering
  that follows leaves the \<open>-2\<close> in place.
\<close>

theorem deleteTask_sets_sentinel:
  assumes "t < length (heap s)"
  shows "index (heap (deleteTask t s) ! t) = - 2 \<and> t \<notin> set (tasks (deleteTask t s))"
  using assms by (simp add: deleteTask_removed_index tasks_deleteTask)

theorem deleteTask_sets_sentinel_witness:
  "0 < length (heap twinStore) \<and> index (heap (deleteTask 0 twinStore) ! 0) = - 2 \<and>
   0 \<notin> set (tasks (deleteTask 0 twinStore))"
proof -
  have l: "0 < length (heap twinStore)" by (simp add: twinStore_def)
  from deleteTask_sets_sentinel [OF l] l show ?thesis by simp
qed

section \<open>The sentinel of a deleted task\<close>










section \<open>Stores the program builds are well formed\<close>

lemma wf_fresh: "wf \<lparr>heap = ts, tasks = [0..<length ts]\<rparr>"
  by (simp add: wf_def validRefs_def list_all_iff)

lemma wf_resetTasks: "wf s \<Longrightarrow> wf (resetTasks s)"
  by (rule onlyIndexChanged_wf [OF onlyIndexChanged_resetTasks])

lemma wf_TaskStore_init: "TaskStore_init tasksFile = Inr s \<Longrightarrow> wf s"
  by (auto simp: TaskStore_init_def split: sum.splits intro: wf_resetTasks wf_fresh)

lemma wf_applyFilterAndSorting: "wf s \<Longrightarrow> wf (applyFilterAndSorting hide descending s)"
  unfolding applyFilterAndSorting_def
  by (intro onlyIndexChanged_wf [OF onlyIndexChanged_sortByPriority]
      onlyIndexChanged_wf [OF onlyIndexChanged_filterFinished] wf_resetTasks)

lemma TaskStore_init_error: "loadTasks tasksFile = Inl e \<Longrightarrow> TaskStore_init tasksFile = Inl e"
  by (simp add: TaskStore_init_def)

section \<open>Decimal numerals\<close>












section \<open>Loading\<close>








section \<open>Saving and loading again\<close>









end
